theory Spec2Isabelle
  imports Main
begin

section \<open>Data model\<close>

text \<open>
  A Python \<open>str\<close> is a sequence of Unicode code points and a \<open>bytes\<close> object a sequence of
  octets; both are lists of naturals here.  The default search terms of the script are
  Hebrew, so the 8-bit \<open>char\<close> of HOL would not do for message text.  Content types and
  charset names are ASCII and stay HOL strings.
\<close>

type_synonym ustr = "nat list"
type_synonym bytes = "nat list"

definition str :: "string \<Rightarrow> ustr" where
  "str s = map of_char s"

text \<open>What \<open>email.header.decode_header\<close> yields: a fragment is \<open>bytes\<close> or already \<open>str\<close>.\<close>

datatype frag = Bytes bytes | Str ustr

text \<open>
  One part of a parsed message as the script reads it: \<open>get_content_type()\<close>,
  \<open>get_content_charset()\<close> and \<open>get_payload(decode=True)\<close>.
\<close>

record part =
  ctype :: string
  charset :: "string option"
  payload :: bytes

text \<open>
  A parsed message: \<open>msg["Subject"]\<close> (absent is \<open>None\<close>), and either the parts that
  \<open>msg.walk()\<close> enumerates when \<open>msg.is_multipart()\<close>, or the message's own type and payload.
  The script never reads the \<open>From\<close> header; the server's search does.
\<close>

datatype body = Multipart "part list" | Single part

record email =
  From :: ustr
  Subject :: "ustr option"
  content :: body

datatype flag = Seen | Deleted | Answered | Flagged | Draft | Recent

record entry =
  message :: email
  flags :: "flag set"

text \<open>
  The calls the script makes on the mailbox and on the chat API, in the order it makes
  them.  \<open>Alert n t ok\<close> is the POST of payload \<open>t\<close> made while message \<open>n\<close> is handled;
  \<open>ok\<close> says whether it was delivered.
\<close>

datatype event = Search | Fetch nat | Alert nat ustr bool | Store nat flag | Expunge

record world =
  mailbox :: "entry list"
  trace :: "event list"

datatype error = HTTPError | IMAPError

text \<open>
  Everything the script takes from outside its own code: the configured term list, the
  libraries it calls (\<open>re\<close>, \<open>email\<close>, \<open>bs4\<close>, \<open>requests\<close>) and the IMAP server.
  \<^item> \<open>ci p c\<close>: under \<open>re.IGNORECASE\<close> the pattern character \<open>p\<close> matches the text character \<open>c\<close>;
  \<^item> \<open>bytes_decode cs b\<close>: \<open>b.decode(cs, errors="replace")\<close>;
  \<^item> \<open>get_text h\<close>: \<open>BeautifulSoup(h, "lxml").get_text(" ", strip=True)\<close>;
  \<^item> \<open>http_get u\<close>: the \<open>.text\<close> of \<open>requests.get(u, ...)\<close>, \<open>None\<close> when the call raises;
  \<^item> \<open>http_post t\<close>: whether the POST of \<open>t\<close> to the chat API got through
    \<open>raise_for_status()\<close> without an exception;
  \<^item> \<open>from_filter h\<close>: the server's verdict on \<open>HEADER From "facebookmail.com"\<close> for a
    message whose \<open>From\<close> header is \<open>h\<close>;
  \<^item> \<open>fetch_sets_seen\<close>: whether the server sets \<open>\Seen\<close> on a message whose \<open>RFC822\<close>
    data item is fetched.  RFC 3501 says it does in a mailbox selected read-write
    (\<open>RFC822\<close> is \<open>BODY[]\<close>, not \<open>BODY.PEEK[]\<close>); the script never asks for it.

  Each of these is a function of its arguments: within one run the same request gets the
  same answer.  Decoding is total, that is, every charset named in a message has a codec.
\<close>

record env =
  SEARCH_TERMS :: "ustr list"
  ci :: "nat \<Rightarrow> nat \<Rightarrow> bool"
  decode_header :: "ustr \<Rightarrow> (frag \<times> string option) list"
  bytes_decode :: "string \<Rightarrow> bytes \<Rightarrow> ustr"
  get_text :: "ustr \<Rightarrow> ustr"
  http_get :: "ustr \<Rightarrow> ustr option"
  http_post :: "ustr \<Rightarrow> bool"
  from_filter :: "ustr \<Rightarrow> bool"
  fetch_sets_seen :: bool

section \<open>Helpers of the script\<close>

subsection \<open>Regular expressions\<close>

text \<open>
  \<open>re.search(re.escape(term), s, re.IGNORECASE)\<close>: the escaped pattern is the literal
  term, tried at every start position of \<open>s\<close> from the left, the end included (where
  only the empty term matches).
\<close>

fun match_here :: "(nat \<Rightarrow> nat \<Rightarrow> bool) \<Rightarrow> ustr \<Rightarrow> ustr \<Rightarrow> bool" where
  "match_here eq [] s = True"
| "match_here eq (p # ps) [] = False"
| "match_here eq (p # ps) (c # cs) = (eq p c \<and> match_here eq ps cs)"

fun re_search :: "(nat \<Rightarrow> nat \<Rightarrow> bool) \<Rightarrow> ustr \<Rightarrow> ustr \<Rightarrow> bool" where
  "re_search eq pat [] = match_here eq pat []"
| "re_search eq pat (c # cs) = (match_here eq pat (c # cs) \<or> re_search eq pat cs)"


text \<open>
  \<open>\S\<close> in a \<open>str\<close> pattern is the complement of Python's Unicode white space
  (\<open>Py_UNICODE_ISSPACE\<close>).
\<close>

definition is_space :: "nat \<Rightarrow> bool" where
  "is_space c \<longleftrightarrow>
     (9 \<le> c \<and> c \<le> 13) \<or> (28 \<le> c \<and> c \<le> 32) \<or> c = 133 \<or> c = 160 \<or> c = 5760
     \<or> (8192 \<le> c \<and> c \<le> 8202) \<or> c = 8232 \<or> c = 8233 \<or> c = 8239 \<or> c = 8287
     \<or> c = 12288"

definition starts_with :: "ustr \<Rightarrow> ustr \<Rightarrow> bool" where
  "starts_with p s \<longleftrightarrow> take (length p) s = p"

text \<open>The length of the \<open>https?://\<close> that \<open>s\<close> starts with, if it does.\<close>

definition scheme_at :: "ustr \<Rightarrow> nat option" where
  "scheme_at s =
     (if starts_with (str ''http://'') s then Some 7
      else if starts_with (str ''https://'') s then Some 8
      else None)"

text \<open>
  \<open>re.findall(r"https?://\S+", text)\<close>: the matches from left to right, none overlapping;
  \<open>\S+\<close> is greedy and needs one character at least, and the scan goes on behind a match.
\<close>

function extract_links :: "ustr \<Rightarrow> ustr list" where
  "extract_links [] = []"
| "extract_links (c # cs) =
     (case scheme_at (c # cs) of
        None \<Rightarrow> extract_links cs
      | Some k \<Rightarrow>
          (let rest = drop k (c # cs);
               run = takeWhile (\<lambda>x. \<not> is_space x) rest
           in if run = [] then extract_links cs
              else (take k (c # cs) @ run)
                   # extract_links (dropWhile (\<lambda>x. \<not> is_space x) rest)))"
  by pat_completeness auto
termination
proof (relation "measure length")
  show "wf (measure length)" by simp
next
  fix c :: nat and cs :: ustr
  show "(cs, c # cs) \<in> measure length" by simp
next
  fix c :: nat and cs :: ustr
  show "(cs, c # cs) \<in> measure length" by simp
next
  fix c :: nat and cs :: ustr and k :: nat and rest :: ustr
  assume k: "scheme_at (c # cs) = Some k" and rest: "rest = drop k (c # cs)"
  from k have "0 < k" by (auto simp: scheme_at_def split: if_splits)
  moreover have "length (dropWhile (\<lambda>x. \<not> is_space x) rest) \<le> length rest"
    by (rule length_dropWhile_le)
  ultimately show "(dropWhile (\<lambda>x. \<not> is_space x) rest, c # cs) \<in> measure length"
    using rest by simp
qed

subsection \<open>Decoding\<close>

text \<open>\<open>x or d\<close> on an optional string: \<open>None\<close> and the empty string both give \<open>d\<close>.\<close>

definition or_else :: "'a list option \<Rightarrow> 'a list \<Rightarrow> 'a list" where
  "or_else x d = (case x of None \<Rightarrow> d | Some s \<Rightarrow> if s = [] then d else s)"

definition decode_frag :: "env \<Rightarrow> frag \<times> string option \<Rightarrow> ustr" where
  "decode_frag E fe =
     (case fst fe of
        Bytes b \<Rightarrow> bytes_decode E (or_else (snd fe) ''utf-8'') b
      | Str t \<Rightarrow> t)"

definition decode_mime_words :: "env \<Rightarrow> ustr \<Rightarrow> ustr" where
  "decode_mime_words E s = concat (map (decode_frag E) (decode_header E s))"

text \<open>\<open>sep.join(parts)\<close>.\<close>

fun join :: "ustr \<Rightarrow> ustr list \<Rightarrow> ustr" where
  "join sep [] = []"
| "join sep [x] = x"
| "join sep (x # y # ys) = x @ sep @ join sep (y # ys)"

definition part_decoded :: "env \<Rightarrow> part \<Rightarrow> ustr" where
  "part_decoded E p = bytes_decode E (or_else (charset p) ''utf-8'') (payload p)"

text \<open>The loop body over \<open>msg.walk()\<close>: what one part appends, if anything.\<close>

definition walk_part :: "env \<Rightarrow> part \<Rightarrow> ustr option" where
  "walk_part E p =
     (if ctype p = ''text/plain'' then Some (part_decoded E p)
      else if ctype p = ''text/html'' then Some (get_text E (part_decoded E p))
      else None)"

definition extract_text_from_msg :: "env \<Rightarrow> email \<Rightarrow> ustr" where
  "extract_text_from_msg E msg =
     join [10]
       (case content msg of
          Multipart ps \<Rightarrow> List.map_filter (walk_part E) ps
        | Single p \<Rightarrow>
            (if payload p \<noteq> [] then
               (if ctype p = ''text/plain'' then [part_decoded E p]
                else [get_text E (part_decoded E p)])
             else []))"

subsection \<open>Classification\<close>

text \<open>
  A Python \<open>set\<close> of terms is a duplicate-free list: the comprehension keeps one
  occurrence of each term, \<open>add\<close> is \<open>List.insert\<close>, \<open>list(found)\<close> is the list itself.
  Python does not fix the order in which a set is iterated; what is proved below about
  the result speaks of its elements and of their distinctness only.
\<close>

definition search_space :: "env \<Rightarrow> email \<Rightarrow> ustr" where
  "search_space E msg =
     decode_mime_words E (or_else (Subject msg) []) @ [10] @ extract_text_from_msg E msg"

text \<open>Lines 61-62: the terms found in the message's own text.\<close>

definition found_direct :: "env \<Rightarrow> email \<Rightarrow> ustr list" where
  "found_direct E msg =
     remdups (filter (\<lambda>term. re_search (ci E) term (search_space E msg)) (SEARCH_TERMS E))"

text \<open>Lines 70-72: the inner loop over the terms, on one fetched page.\<close>

fun scan_page :: "(nat \<Rightarrow> nat \<Rightarrow> bool) \<Rightarrow> ustr \<Rightarrow> ustr list \<Rightarrow> ustr list \<Rightarrow> ustr list" where
  "scan_page eq html_text [] found = found"
| "scan_page eq html_text (term # terms) found =
     scan_page eq html_text terms
       (if re_search eq term html_text then List.insert term found else found)"

text \<open>Lines 66-74: the loop over the links; a fetch that raises is passed over.\<close>

fun follow_links :: "env \<Rightarrow> ustr list \<Rightarrow> ustr list \<Rightarrow> ustr list" where
  "follow_links E [] found = found"
| "follow_links E (url # urls) found =
     (case http_get E url of
        None \<Rightarrow> follow_links E urls found
      | Some html_text \<Rightarrow>
          follow_links E urls (scan_page (ci E) html_text (SEARCH_TERMS E) found))"

definition msg_matches :: "env \<Rightarrow> email \<Rightarrow> ustr list" where
  "msg_matches E msg =
     (let found = found_direct E msg
      in if found = [] then follow_links E (extract_links (extract_text_from_msg E msg)) found
         else found)"

subsection \<open>Alerts\<close>

text \<open>Line 137; the bell is U+1F514.\<close>

definition alert_text :: "env \<Rightarrow> email \<Rightarrow> ustr list \<Rightarrow> ustr" where
  "alert_text E msg matches =
     (let link = (case extract_links (extract_text_from_msg E msg) of
                    [] \<Rightarrow> str ''(no link)'' | l # _ \<Rightarrow> l);
          subj = decode_mime_words E (or_else (Subject msg) (str ''(no subject)''))
      in [128276] @ str '' Facebook hit (found: '' @ join (str '', '') matches @ str '')''
         @ [10] @ subj @ [10] @ link)"

text \<open>What \<open>send_telegram\<close> puts into the \<open>text\<close> field of the POST.\<close>

definition telegram_payload :: "ustr \<Rightarrow> ustr" where
  "telegram_payload t = take 4096 t"

text \<open>
  \<open>send_telegram\<close>, called while message \<open>n\<close> is handled: the POST is logged, and a
  response that \<open>raise_for_status()\<close> rejects is the error.
\<close>

definition send_telegram :: "env \<Rightarrow> nat \<Rightarrow> ustr \<Rightarrow> world \<Rightarrow> error option \<times> world" where
  "send_telegram E n t w =
     (let p = telegram_payload t; ok = http_post E p;
          w' = w\<lparr>trace := trace w @ [Alert n p ok]\<rparr>
      in (if ok then None else Some HTTPError, w'))"

section \<open>The mailbox\<close>

text \<open>
  Messages are addressed by sequence number, counted from 1.  The connection, the login
  and the \<open>select\<close> are taken to succeed, and the mailbox is the selected inbox.
\<close>

definition valid_num :: "entry list \<Rightarrow> nat \<Rightarrow> bool" where
  "valid_num mb n \<longleftrightarrow> 1 \<le> n \<and> n \<le> length mb"

definition add_flag :: "flag \<Rightarrow> entry \<Rightarrow> entry" where
  "add_flag f e = e\<lparr>flags := insert f (flags e)\<rparr>"

definition set_flag :: "nat \<Rightarrow> flag \<Rightarrow> entry list \<Rightarrow> entry list" where
  "set_flag n f mb = (if valid_num mb n then mb[n - 1 := add_flag f (mb ! (n - 1))] else mb)"

text \<open>The search key \<open>UNSEEN HEADER From "facebookmail.com"\<close> on one message.\<close>

definition wanted :: "env \<Rightarrow> entry \<Rightarrow> bool" where
  "wanted E e \<longleftrightarrow> Seen \<notin> flags e \<and> from_filter E (From (message e))"

definition imap_search :: "env \<Rightarrow> entry list \<Rightarrow> nat list" where
  "imap_search E mb = filter (\<lambda>n. wanted E (mb ! (n - 1))) [1..<Suc (length mb)]"

definition imap_fetch :: "env \<Rightarrow> nat \<Rightarrow> world \<Rightarrow> error + (email \<times> world)" where
  "imap_fetch E n w =
     (if valid_num (mailbox w) n then
        Inr (message (mailbox w ! (n - 1)),
             w\<lparr>mailbox := (if fetch_sets_seen E then set_flag n Seen (mailbox w) else mailbox w),
               trace := trace w @ [Fetch n]\<rparr>)
      else Inl IMAPError)"

definition imap_store :: "nat \<Rightarrow> flag \<Rightarrow> world \<Rightarrow> world" where
  "imap_store n f w = w\<lparr>mailbox := set_flag n f (mailbox w), trace := trace w @ [Store n f]\<rparr>"

definition imap_expunge :: "world \<Rightarrow> world" where
  "imap_expunge w =
     w\<lparr>mailbox := filter (\<lambda>e. Deleted \<notin> flags e) (mailbox w), trace := trace w @ [Expunge]\<rparr>"

section \<open>The main routine\<close>

text \<open>
  Lines 127-144, the body of the loop for message \<open>n\<close>.  An exception leaves the loop
  with the world as it is at that point.
\<close>

definition process :: "env \<Rightarrow> nat \<Rightarrow> world \<Rightarrow> error option \<times> world" where
  "process E n w =
     (case imap_fetch E n w of
        Inl e \<Rightarrow> (Some e, w)
      | Inr (msg, w1) \<Rightarrow>
          (let matches = msg_matches E msg
           in if matches \<noteq> [] then
                (case send_telegram E n (alert_text E msg matches) w1 of
                   (Some e, w2) \<Rightarrow> (Some e, w2)
                 | (None, w2) \<Rightarrow> (None, imap_store n Seen w2))
              else (None, imap_store n Deleted w1)))"

fun loop :: "env \<Rightarrow> nat list \<Rightarrow> world \<Rightarrow> error option \<times> world" where
  "loop E [] w = (None, w)"
| "loop E (n # ns) w =
     (case process E n w of
        (Some e, w') \<Rightarrow> (Some e, w')
      | (None, w') \<Rightarrow> loop E ns w')"

text \<open>
  Lines 121-147.  When the loop raises, the \<open>with\<close> block is left through the exception:
  the connection logs out and \<open>expunge\<close> is not reached.
\<close>

definition main :: "env \<Rightarrow> entry list \<Rightarrow> error option \<times> world" where
  "main E mb =
     (let w0 = \<lparr>mailbox = mb, trace = [Search]\<rparr>;
          msg_nums = imap_search E mb
      in case loop E msg_nums w0 of
           (Some e, w) \<Rightarrow> (Some e, w)
         | (None, w) \<Rightarrow> (None, imap_expunge w))"

section \<open>Notions for describing a run\<close>

text \<open>
  The classification of a stored message, the alert it gives rise to, and whether the
  chat API takes that alert.  All three depend on the content of the message only.
\<close>

definition is_match :: "env \<Rightarrow> entry \<Rightarrow> bool" where
  "is_match E e \<longleftrightarrow> msg_matches E (message e) \<noteq> []"

definition payload_of :: "env \<Rightarrow> entry \<Rightarrow> ustr" where
  "payload_of E e =
     telegram_payload (alert_text E (message e) (msg_matches E (message e)))"

definition delivers :: "env \<Rightarrow> entry \<Rightarrow> bool" where
  "delivers E e \<longleftrightarrow> http_post E (payload_of E e)"

text \<open>A message after its fetch, and after the whole loop body has run for it.\<close>

definition fetched :: "env \<Rightarrow> entry \<Rightarrow> entry" where
  "fetched E e = (if fetch_sets_seen E then add_flag Seen e else e)"

definition handled :: "env \<Rightarrow> entry \<Rightarrow> entry" where
  "handled E e = add_flag (if is_match E e then Seen else Deleted) (fetched E e)"

text \<open>The calls of one pass through the loop body that ends without an exception.\<close>

definition events_of :: "env \<Rightarrow> entry list \<Rightarrow> nat \<Rightarrow> event list" where
  "events_of E mb n =
     (let e = mb ! (n - 1)
      in Fetch n # (if is_match E e then [Alert n (payload_of E e) True, Store n Seen]
                    else [Store n Deleted]))"

text \<open>\<open>touch f ns mb\<close> is \<open>mb\<close> with \<open>f\<close> applied to the messages numbered in \<open>ns\<close>.\<close>

definition touch :: "(entry \<Rightarrow> entry) \<Rightarrow> nat list \<Rightarrow> entry list \<Rightarrow> entry list" where
  "touch f ns mb = map (\<lambda>i. if Suc i \<in> set ns then f (mb ! i) else mb ! i) [0..<length mb]"

text \<open>A run in which no alert is rejected: every listed message that matches is delivered.\<close>

definition all_delivered :: "env \<Rightarrow> entry list \<Rightarrow> bool" where
  "all_delivered E mb \<longleftrightarrow>
     list_all (\<lambda>n. is_match E (mb ! (n - 1)) \<longrightarrow> delivers E (mb ! (n - 1))) (imap_search E mb)"

section \<open>Sample inputs\<close>

text \<open>
  A small configuration on which the definitions are run: the terms are the Hebrew default
  and \<open>ab\<close>; letters compare up to ASCII case; headers and payloads decode to themselves;
  one page can be fetched, every other URL fails; the chat API accepts every alert.
\<close>

definition ascii_lower :: "nat \<Rightarrow> nat" where
  "ascii_lower c = (if 65 \<le> c \<and> c \<le> 90 then c + 32 else c)"

definition ascii_ci :: "nat \<Rightarrow> nat \<Rightarrow> bool" where
  "ascii_ci p c \<longleftrightarrow> ascii_lower p = ascii_lower c"

definition demo_env :: env where
  "demo_env =
     \<lparr>SEARCH_TERMS = [[1502, 1493, 1502, 1492], str ''ab''],
      ci = ascii_ci,
      decode_header = (\<lambda>s. [(Str s, None)]),
      bytes_decode = (\<lambda>cs b. b),
      get_text = (\<lambda>h. h),
      http_get = (\<lambda>u. if u = str ''http://p'' then Some (str ''xABx'') else None),
      http_post = (\<lambda>t. True),
      from_filter = re_search ascii_ci (str ''facebookmail.com''),
      fetch_sets_seen = False\<rparr>"

definition plain :: "string \<Rightarrow> body" where
  "plain s = Single \<lparr>ctype = ''text/plain'', charset = None, payload = str s\<rparr>"

text \<open>A message that names a term in its subject, one that names none, one whose only
  hit is behind its link, one whose link cannot be fetched, and one from another sender.\<close>

definition msg_hit :: email where
  "msg_hit = \<lparr>From = str ''n@facebookmail.com'', Subject = Some (str ''Ab''), content = plain ''c''\<rparr>"

definition msg_miss :: email where
  "msg_miss = \<lparr>From = str ''n@facebookmail.com'', Subject = Some (str ''c''), content = plain ''d''\<rparr>"

definition msg_link :: email where
  "msg_link =
     \<lparr>From = str ''n@facebookmail.com'', Subject = None, content = plain ''see http://p''\<rparr>"

definition msg_dead :: email where
  "msg_dead =
     \<lparr>From = str ''n@facebookmail.com'', Subject = None, content = plain ''see http://q''\<rparr>"

definition msg_other :: email where
  "msg_other = \<lparr>From = str ''x@y.org'', Subject = Some (str ''ab''), content = plain ''ab''\<rparr>"

text \<open>The same configuration with a chat API that rejects every alert, and with a server
  that sets \<open>\Seen\<close> on fetch.\<close>

definition down_env :: env where
  "down_env = demo_env\<lparr>http_post := (\<lambda>t. False)\<rparr>"

definition rfc_env :: env where
  "rfc_env = down_env\<lparr>fetch_sets_seen := True\<rparr>"

text \<open>Mailboxes built from these messages.\<close>

definition box3 :: "entry list" where
  "box3 = [\<lparr>message = msg_hit, flags = {}\<rparr>, \<lparr>message = msg_miss, flags = {}\<rparr>,
           \<lparr>message = msg_other, flags = {}\<rparr>]"


definition box_mh :: "entry list" where
  "box_mh = [\<lparr>message = msg_miss, flags = {}\<rparr>, \<lparr>message = msg_hit, flags = {}\<rparr>]"

definition box_one :: "entry list" where
  "box_one = [\<lparr>message = msg_hit, flags = {}\<rparr>]"

text \<open>A message read and flagged \<open>\Deleted\<close> by another client but not yet expunged, and an
  unread one from another sender in the same state.\<close>

definition box_old :: "entry list" where
  "box_old = [\<lparr>message = msg_miss, flags = {Seen, Deleted}\<rparr>]"


section \<open>The keyword test\<close>

subsection \<open>The search of the regular-expression engine and the claim's substring\<close>









lemma follow_links_append:
  "follow_links E (us @ vs) found = follow_links E vs (follow_links E us found)"
  by (induction us arbitrary: found) (auto split: option.splits)

lemma follow_links_all_fail:
  "\<forall>u \<in> set urls. http_get E u = None \<Longrightarrow> follow_links E urls found = found"
  by (induction urls) auto


subsection \<open>Evaluation of the sample inputs\<close>

lemmas sample_defs = demo_env_def down_env_def rfc_env_def plain_def msg_hit_def msg_miss_def
  msg_link_def msg_dead_def msg_other_def ascii_ci_def ascii_lower_def str_def

lemmas text_defs = search_space_def extract_text_from_msg_def decode_mime_words_def
  decode_frag_def or_else_def part_decoded_def walk_part_def scheme_at_def starts_with_def
  is_space_def


lemma links_msg_dead: "extract_links (extract_text_from_msg demo_env msg_dead) = [str ''http://q'']"
  by (simp add: sample_defs text_defs)



lemma found_msg_dead: "found_direct demo_env msg_dead = []"
  by (simp add: found_direct_def sample_defs text_defs)


lemma get_q: "http_get demo_env (str ''http://q'') = None"
  by (simp add: sample_defs)

subsection \<open>Claims about \<open>msg_matches\<close>\<close>







section \<open>The run\<close>

subsection \<open>The loop body and the loop\<close>

lemma length_touch [simp]: "length (touch f ns mb) = length mb"
  by (simp add: touch_def)

lemma nth_touch:
  "i < length mb \<Longrightarrow> touch f ns mb ! i = (if Suc i \<in> set ns then f (mb ! i) else mb ! i)"
  by (simp add: touch_def)

lemma touch_Nil [simp]: "touch f [] mb = mb"
  by (rule nth_equalityI) (simp_all add: nth_touch)

lemma length_set_flag [simp]: "length (set_flag n fl mb) = length mb"
  by (simp add: set_flag_def)

lemma set_flag_touch: "set_flag n fl mb = touch (add_flag fl) [n] mb"
proof (rule nth_equalityI)
  show "length (set_flag n fl mb) = length (touch (add_flag fl) [n] mb)"
    by simp
next
  fix i assume "i < length (set_flag n fl mb)"
  then have i: "i < length mb" by simp
  then show "set_flag n fl mb ! i = touch (add_flag fl) [n] mb ! i"
    by (auto simp: set_flag_def valid_num_def nth_touch nth_list_update)
qed

lemma touch_touch_same: "touch g [n] (touch f [n] mb) = touch (g \<circ> f) [n] mb"
  by (rule nth_equalityI) (simp_all add: nth_touch)

lemma touch_Cons: "n \<notin> set ns \<Longrightarrow> touch f ns (touch f [n] mb) = touch f (n # ns) mb"
  by (rule nth_equalityI) (auto simp: nth_touch)

lemma nth_touch_other:
  "valid_num mb m \<Longrightarrow> m \<notin> set ns \<Longrightarrow> touch f ns mb ! (m - 1) = mb ! (m - 1)"
  by (auto simp: valid_num_def nth_touch)

lemma valid_num_touch [simp]: "valid_num (touch f ns mb) n = valid_num mb n"
  by (simp add: valid_num_def)

lemma message_add_flag [simp]: "message (add_flag fl e) = message e"
  by (simp add: add_flag_def)

lemma message_fetched [simp]: "message (fetched E e) = message e"
  by (simp add: fetched_def)

lemma message_handled [simp]: "message (handled E e) = message e"
  by (simp add: handled_def)

lemma fetch_mailbox:
  "(if fetch_sets_seen E then set_flag n Seen mb else mb) = touch (fetched E) [n] mb"
  by (rule nth_equalityI) (auto simp: set_flag_touch nth_touch fetched_def)

lemma process_eq:
  assumes "valid_num (mailbox w) n"
  shows "process E n w =
    (let e = mailbox w ! (n - 1) in
     if is_match E e then
       (if delivers E e
        then (None, \<lparr>mailbox = touch (handled E) [n] (mailbox w),
                      trace = trace w @ [Fetch n, Alert n (payload_of E e) True, Store n Seen]\<rparr>)
        else (Some HTTPError, \<lparr>mailbox = touch (fetched E) [n] (mailbox w),
                      trace = trace w @ [Fetch n, Alert n (payload_of E e) False]\<rparr>))
     else (None, \<lparr>mailbox = touch (handled E) [n] (mailbox w),
                   trace = trace w @ [Fetch n, Store n Deleted]\<rparr>))"
proof -
  have h1: "is_match E (mailbox w ! (n - 1)) \<Longrightarrow>
      touch (add_flag Seen) [n] (touch (fetched E) [n] (mailbox w)) = touch (handled E) [n] (mailbox w)"
    by (rule nth_equalityI) (auto simp: nth_touch handled_def is_match_def)
  have h2: "\<not> is_match E (mailbox w ! (n - 1)) \<Longrightarrow>
      touch (add_flag Deleted) [n] (touch (fetched E) [n] (mailbox w)) = touch (handled E) [n] (mailbox w)"
    by (rule nth_equalityI) (auto simp: nth_touch handled_def is_match_def)
  show ?thesis
    using assms h1 h2
    by (simp add: process_def imap_fetch_def fetch_mailbox send_telegram_def imap_store_def
        Let_def is_match_def delivers_def payload_of_def set_flag_touch)
qed


lemma loop_ok:
  "distinct ns \<Longrightarrow>
   \<forall>n \<in> set ns. valid_num (mailbox w) n
       \<and> (is_match E (mailbox w ! (n - 1)) \<longrightarrow> delivers E (mailbox w ! (n - 1))) \<Longrightarrow>
   loop E ns w = (None, \<lparr>mailbox = touch (handled E) ns (mailbox w),
                           trace = trace w @ concat (map (events_of E (mailbox w)) ns)\<rparr>)"
proof (induction ns arbitrary: w)
  case Nil
  then show ?case by simp
next
  case (Cons n ns)
  let ?w1 = "\<lparr>mailbox = touch (handled E) [n] (mailbox w),
              trace = trace w @ events_of E (mailbox w) n\<rparr>"
  from Cons.prems have n: "valid_num (mailbox w) n" "n \<notin> set ns" "distinct ns"
    and d: "is_match E (mailbox w ! (n - 1)) \<longrightarrow> delivers E (mailbox w ! (n - 1))"
    by simp_all
  have p: "process E n w = (None, ?w1)"
    using d by (auto simp: process_eq [OF n(1)] Let_def events_of_def)
  have same: "\<And>m. m \<in> set ns \<Longrightarrow> mailbox ?w1 ! (m - 1) = mailbox w ! (m - 1)"
    using Cons.prems n by (auto simp: nth_touch valid_num_def)
  have pre: "\<forall>m \<in> set ns. valid_num (mailbox ?w1) m
       \<and> (is_match E (mailbox ?w1 ! (m - 1)) \<longrightarrow> delivers E (mailbox ?w1 ! (m - 1)))"
    using Cons.prems same by simp
  have "map (events_of E (touch (handled E) [n] (mailbox w))) ns
      = map (events_of E (mailbox w)) ns"
    using same by (intro map_cong) (simp_all add: events_of_def)
  then have ev: "concat (map (events_of E (touch (handled E) [n] (mailbox w))) ns)
      = concat (map (events_of E (mailbox w)) ns)"
    by (simp only:)
  have "loop E (n # ns) w = loop E ns ?w1" by (simp add: p)
  also have "\<dots> = (None, \<lparr>mailbox = touch (handled E) ns (mailbox ?w1),
                     trace = trace ?w1 @ concat (map (events_of E (mailbox ?w1)) ns)\<rparr>)"
    by (rule Cons.IH [OF n(3) pre])
  finally show ?case using n(2) by (simp add: touch_Cons ev)
qed

lemma loop_append:
  "loop E (xs @ ys) w =
     (case loop E xs w of (Some e, w') \<Rightarrow> (Some e, w') | (None, w') \<Rightarrow> loop E ys w')"
  by (induction xs arbitrary: w) (auto split: prod.splits option.splits)

lemma imap_search_props:
  "distinct (imap_search E mb)"
  "n \<in> set (imap_search E mb) \<longleftrightarrow> valid_num mb n \<and> wanted E (mb ! (n - 1))"
  by (auto simp: imap_search_def valid_num_def)

lemma touch_search:
  "touch f (imap_search E mb) mb = map (\<lambda>e. if wanted E e then f e else e) mb"
  by (rule nth_equalityI) (auto simp: nth_touch imap_search_props valid_num_def)


lemma main_ok:
  assumes "all_delivered E mb"
  shows "main E mb =
    (None, \<lparr>mailbox = filter (\<lambda>e. Deleted \<notin> flags e)
                          (map (\<lambda>e. if wanted E e then handled E e else e) mb),
             trace = Search # concat (map (events_of E mb) (imap_search E mb)) @ [Expunge]\<rparr>)"
proof -
  let ?w0 = "\<lparr>mailbox = mb, trace = [Search]\<rparr>"
  have "\<forall>n \<in> set (imap_search E mb). valid_num (mailbox ?w0) n
       \<and> (is_match E (mailbox ?w0 ! (n - 1)) \<longrightarrow> delivers E (mailbox ?w0 ! (n - 1)))"
    using assms by (simp add: all_delivered_def list_all_iff imap_search_props)
  from loop_ok [OF imap_search_props(1) this]
  show ?thesis by (simp add: main_def imap_expunge_def touch_search)
qed

lemma main_fail:
  assumes "\<not> all_delivered E mb"
  shows "\<exists>pre n post.
     imap_search E mb = pre @ n # post
     \<and> is_match E (mb ! (n - 1)) \<and> \<not> delivers E (mb ! (n - 1))
     \<and> main E mb =
        (Some HTTPError,
         \<lparr>mailbox = touch (fetched E) [n] (touch (handled E) pre mb),
          trace = Search # concat (map (events_of E mb) pre)
                  @ [Fetch n, Alert n (payload_of E (mb ! (n - 1))) False]\<rparr>)"
proof -
  let ?bad = "\<lambda>n. \<not> (is_match E (mb ! (n - 1)) \<longrightarrow> delivers E (mb ! (n - 1)))"
  let ?w0 = "\<lparr>mailbox = mb, trace = [Search]\<rparr>"
  from assms have "\<exists>n \<in> set (imap_search E mb). ?bad n"
    by (simp add: all_delivered_def list_all_iff)
  then obtain pre n post where split: "imap_search E mb = pre @ n # post"
    and bad: "?bad n" and good: "\<forall>m \<in> set pre. \<not> ?bad m"
    by (auto simp: split_list_first_prop_iff)
  have dist: "distinct (pre @ n # post)"
    using imap_search_props(1) [of E mb] by (simp only: split)
  have valid: "\<forall>m \<in> set (pre @ n # post). valid_num mb m"
    using imap_search_props(2) [of _ E mb] by (simp only: split [symmetric]) blast
  define w1 where "w1 = \<lparr>mailbox = touch (handled E) pre mb,
              trace = Search # concat (map (events_of E mb) pre)\<rparr>"
  have "\<forall>m \<in> set pre. valid_num (mailbox ?w0) m
       \<and> (is_match E (mailbox ?w0 ! (m - 1)) \<longrightarrow> delivers E (mailbox ?w0 ! (m - 1)))"
    using good valid by simp
  moreover from dist have "distinct pre" by simp
  ultimately have l1: "loop E pre ?w0 = (None, w1)"
    using loop_ok [of pre ?w0 E] by (simp add: w1_def)
  have mb1: "mailbox w1 = touch (handled E) pre mb"
    and tr1: "trace w1 = Search # concat (map (events_of E mb) pre)"
    by (simp_all add: w1_def)
  have nv: "valid_num mb n" using valid by simp
  have np: "n \<notin> set pre" using dist by simp
  have vn: "valid_num (mailbox w1) n" using nv by (simp add: mb1)
  have same: "touch (handled E) pre mb ! (n - 1) = mb ! (n - 1)"
    by (rule nth_touch_other [OF nv np])
  have p: "process E n w1 =
      (Some HTTPError,
         \<lparr>mailbox = touch (fetched E) [n] (touch (handled E) pre mb),
          trace = Search # concat (map (events_of E mb) pre)
                  @ [Fetch n, Alert n (payload_of E (mb ! (n - 1))) False]\<rparr>)"
    using bad unfolding process_eq [OF vn] Let_def mb1 tr1 same by simp
  have "loop E (imap_search E mb) ?w0 = loop E (n # post) w1"
    unfolding split loop_append l1 by simp
  also have "\<dots> = process E n w1" unfolding loop.simps p by simp
  finally have "main E mb = process E n w1"
    unfolding p by (simp add: main_def)
  with split bad p show ?thesis by auto
qed

subsection \<open>What a run leaves behind\<close>

lemma in_events_of:
  "ev \<in> set (events_of E mb n) \<longleftrightarrow>
     ev = Fetch n
     \<or> (is_match E (mb ! (n - 1)) \<and> (ev = Alert n (payload_of E (mb ! (n - 1))) True \<or> ev = Store n Seen))
     \<or> (\<not> is_match E (mb ! (n - 1)) \<and> ev = Store n Deleted)"
  by (auto simp: events_of_def Let_def)

lemma map_message_touch:
  "(\<And>e. message (f e) = message e) \<Longrightarrow> map message (touch f ns mb) = map message mb"
  by (rule nth_equalityI) (simp_all add: nth_touch)

lemma flags_handled:
  "flags (handled E e) =
     insert (if is_match E e then Seen else Deleted)
       (if fetch_sets_seen E then insert Seen (flags e) else flags e)"
  by (simp add: handled_def fetched_def add_flag_def)


lemma main_outcome: "fst (main E mb) = (if all_delivered E mb then None else Some HTTPError)"
proof (cases "all_delivered E mb")
  case True
  then show ?thesis by (simp add: main_ok)
next
  case False
  from main_fail [OF this] show ?thesis using False by auto
qed

lemma survivors:
  "map message (filter (\<lambda>e. Deleted \<notin> flags e) (map (\<lambda>e. if wanted E e then handled E e else e) mb))
   = map message (filter (\<lambda>e. \<not> (Deleted \<in> flags e \<or> (wanted E e \<and> msg_matches E (message e) = []))) mb)"
  by (induction mb) (auto simp: flags_handled is_match_def)



subsection \<open>Runs of the sample inputs\<close>

lemma demo_samples:
  "from_filter demo_env (From msg_hit)" "from_filter demo_env (From msg_miss)"
  "\<not> from_filter demo_env (From msg_other)"
  "msg_matches demo_env msg_hit = [str ''ab'']" "msg_matches demo_env msg_miss = []"
  "http_post demo_env t = True" "fetch_sets_seen demo_env = False"
  by (simp_all add: msg_matches_def found_direct_def sample_defs text_defs)

lemma down_samples:
  "from_filter down_env (From msg_hit)" "from_filter down_env (From msg_miss)"
  "msg_matches down_env msg_hit = [str ''ab'']" "msg_matches down_env msg_miss = []"
  "http_post down_env t = False" "fetch_sets_seen down_env = False"
  by (simp_all add: msg_matches_def found_direct_def sample_defs text_defs)


lemma dead_sample: "msg_matches demo_env msg_dead = []"
  by (simp add: msg_matches_def found_msg_dead links_msg_dead get_q)

lemmas run_defs = main_def imap_search_def wanted_def process_def imap_fetch_def valid_num_def
  set_flag_def add_flag_def send_telegram_def imap_store_def imap_expunge_def Let_def



lemma main_demo_box3:
  "main demo_env box3 =
     (None,
      \<lparr>mailbox = [\<lparr>message = msg_hit, flags = {Seen}\<rparr>, \<lparr>message = msg_other, flags = {}\<rparr>],
       trace = [Search, Fetch 1,
                Alert 1 (telegram_payload (alert_text demo_env msg_hit [str ''ab''])) True,
                Store 1 Seen, Fetch 2, Store 2 Deleted, Expunge]\<rparr>)"
  by (simp add: run_defs box3_def demo_samples)


lemma main_down_box_mh:
  "main down_env box_mh =
     (Some HTTPError,
      \<lparr>mailbox = [\<lparr>message = msg_miss, flags = {Deleted}\<rparr>, \<lparr>message = msg_hit, flags = {}\<rparr>],
       trace = [Search, Fetch 1, Store 1 Deleted, Fetch 2,
                Alert 2 (telegram_payload (alert_text down_env msg_hit [str ''ab''])) False]\<rparr>)"
  by (simp add: run_defs box_mh_def down_samples)

lemma main_down_box_one:
  "main down_env box_one =
     (Some HTTPError,
      \<lparr>mailbox = box_one,
       trace = [Search, Fetch 1,
                Alert 1 (telegram_payload (alert_text down_env msg_hit [str ''ab''])) False]\<rparr>)"
  by (simp add: run_defs box_one_def down_samples)


lemma main_demo_box_old:
  "main demo_env box_old = (None, \<lparr>mailbox = [], trace = [Search, Expunge]\<rparr>)"
  by (simp add: run_defs box_old_def)


section \<open>Claims about a run\<close>




text \<open>
  C4, as amended.  In a run that completes, \<open>expunge\<close> is called exactly once, as the last
  call, after every listed message has been fetched and flagged, and the messages it
  removes are exactly those that carry \<open>\Deleted\<close> at that moment: the listed messages
  without a match, flagged by this run, and the messages that carried the flag before the
  run.  In a run that ends with an error, \<open>expunge\<close> is not called and no message is
  removed.
\<close>

theorem expunge_last_and_only:
  "(fst (main E mb) = None \<longrightarrow>
      (\<exists>pre. trace (snd (main E mb)) = pre @ [Expunge] \<and> Expunge \<notin> set pre
         \<and> (\<forall>n \<in> set (imap_search E mb).
               Fetch n \<in> set pre \<and> (Store n Seen \<in> set pre \<or> Store n Deleted \<in> set pre)))
      \<and> map message (mailbox (snd (main E mb)))
          = map message
              (filter (\<lambda>e. \<not> (Deleted \<in> flags e
                                \<or> (wanted E e \<and> msg_matches E (message e) = []))) mb))
   \<and> (fst (main E mb) \<noteq> None \<longrightarrow>
        Expunge \<notin> set (trace (snd (main E mb)))
        \<and> map message (mailbox (snd (main E mb))) = map message mb)"
proof (cases "all_delivered E mb")
  case True
  let ?pre = "Search # concat (map (events_of E mb) (imap_search E mb))"
  have "trace (snd (main E mb)) = ?pre @ [Expunge]" by (simp add: main_ok [OF True])
  moreover have "Expunge \<notin> set ?pre" by (auto simp: in_events_of)
  moreover have "\<forall>n \<in> set (imap_search E mb).
               Fetch n \<in> set ?pre \<and> (Store n Seen \<in> set ?pre \<or> Store n Deleted \<in> set ?pre)"
    by (auto simp: in_events_of)
  ultimately have "\<exists>pre. trace (snd (main E mb)) = pre @ [Expunge] \<and> Expunge \<notin> set pre
         \<and> (\<forall>n \<in> set (imap_search E mb).
               Fetch n \<in> set pre \<and> (Store n Seen \<in> set pre \<or> Store n Deleted \<in> set pre))"
    by blast
  moreover have "map message (mailbox (snd (main E mb)))
          = map message
              (filter (\<lambda>e. \<not> (Deleted \<in> flags e
                                \<or> (wanted E e \<and> msg_matches E (message e) = []))) mb)"
    by (simp add: main_ok [OF True] survivors)
  moreover have "fst (main E mb) = None" using True by (simp add: main_outcome)
  ultimately show ?thesis by simp
next
  case False
  from main_fail [OF this] obtain pre n post where
    m: "main E mb =
        (Some HTTPError,
         \<lparr>mailbox = touch (fetched E) [n] (touch (handled E) pre mb),
          trace = Search # concat (map (events_of E mb) pre)
                  @ [Fetch n, Alert n (payload_of E (mb ! (n - 1))) False]\<rparr>)"
    by blast
  show ?thesis unfolding m by (auto simp: in_events_of map_message_touch)
qed

theorem expunge_last_and_only_witness:
  "fst (main demo_env box3) = None
   \<and> map message (mailbox (snd (main demo_env box3))) = [msg_hit, msg_other]
   \<and> fst (main down_env box_mh) = Some HTTPError
   \<and> Expunge \<notin> set (trace (snd (main down_env box_mh)))
   \<and> map message (mailbox (snd (main down_env box_mh))) = [msg_miss, msg_hit]"
proof -
  have ok: "fst (main demo_env box3) = None" by (simp add: main_demo_box3)
  have bad: "fst (main down_env box_mh) \<noteq> None" by (simp add: main_down_box_mh)
  have keep: "filter (\<lambda>e. \<not> (Deleted \<in> flags e
                 \<or> (wanted demo_env e \<and> msg_matches demo_env (message e) = []))) box3
      = [\<lparr>message = msg_hit, flags = {}\<rparr>, \<lparr>message = msg_other, flags = {}\<rparr>]"
    by (simp add: box3_def wanted_def demo_samples)
  from expunge_last_and_only [of demo_env box3] ok
  have "map message (mailbox (snd (main demo_env box3)))
      = map message
          (filter (\<lambda>e. \<not> (Deleted \<in> flags e
                 \<or> (wanted demo_env e \<and> msg_matches demo_env (message e) = []))) box3)"
    by blast
  then have "map message (mailbox (snd (main demo_env box3))) = [msg_hit, msg_other]"
    unfolding keep by simp
  moreover from expunge_last_and_only [of down_env box_mh] bad
  have "Expunge \<notin> set (trace (snd (main down_env box_mh)))"
    and "map message (mailbox (snd (main down_env box_mh))) = [msg_miss, msg_hit]"
    by (simp_all add: box_mh_def)
  ultimately show ?thesis using ok by (simp add: main_down_box_mh)
qed

text \<open>
  The claim as stated fails in two ways.  A message that carried \<open>\Deleted\<close> before the run
  is removed although the run never flagged it (it issues no store at all); and in a run
  that a rejected alert ends, \<open>expunge\<close> is not called once but never.
\<close>

theorem expunge_wider_or_absent:
  "main demo_env box_old = (None, \<lparr>mailbox = [], trace = [Search, Expunge]\<rparr>)
   \<and> main down_env box_one =
       (Some HTTPError,
        \<lparr>mailbox = box_one,
         trace = [Search, Fetch 1,
                  Alert 1 (telegram_payload (alert_text down_env msg_hit [str ''ab''])) False]\<rparr>)"
  by (simp add: main_demo_box_old main_down_box_one)








text \<open>
  C8.  A link whose fetch raises is passed over, and the loop goes on with the links that
  follow.  When every link of the body fails, the message is classified on its own text
  alone; if that text has no term, the loop body for the message ends without an error,
  having issued the \<open>\Deleted\<close> store.
\<close>

theorem failed_links_skipped:
  "(http_get E u = None \<longrightarrow>
      follow_links E (us @ u # vs) found = follow_links E (us @ vs) found)
   \<and> ((\<forall>u \<in> set (extract_links (extract_text_from_msg E msg)). http_get E u = None) \<longrightarrow>
        msg_matches E msg = found_direct E msg
        \<and> (found_direct E msg = [] \<and> valid_num (mailbox w) n
             \<and> message (mailbox w ! (n - 1)) = msg \<longrightarrow>
            fst (process E n w) = None
            \<and> Deleted \<in> flags (mailbox (snd (process E n w)) ! (n - 1))
            \<and> trace (snd (process E n w)) = trace w @ [Fetch n, Store n Deleted]))"
proof -
  have a: "http_get E u = None \<longrightarrow>
      follow_links E (us @ u # vs) found = follow_links E (us @ vs) found"
    by (simp add: follow_links_append)
  have b: "msg_matches E msg = found_direct E msg"
    if "\<forall>u \<in> set (extract_links (extract_text_from_msg E msg)). http_get E u = None"
    using that by (simp add: msg_matches_def Let_def follow_links_all_fail)
  have c: "fst (process E n w) = None
            \<and> Deleted \<in> flags (mailbox (snd (process E n w)) ! (n - 1))
            \<and> trace (snd (process E n w)) = trace w @ [Fetch n, Store n Deleted]"
    if "msg_matches E msg = []" and v: "valid_num (mailbox w) n"
      and "message (mailbox w ! (n - 1)) = msg"
  proof -
    from that have nm: "\<not> is_match E (mailbox w ! (n - 1))" by (simp add: is_match_def)
    from v have "n - 1 < length (mailbox w)" "Suc (n - 1) = n" by (auto simp: valid_num_def)
    then have "Deleted \<in> flags (touch (handled E) [n] (mailbox w) ! (n - 1))"
      using nm by (simp add: nth_touch flags_handled)
    then show ?thesis using nm by (simp add: process_eq [OF v] Let_def)
  qed
  from a b c show ?thesis by metis
qed

theorem failed_links_skipped_witness:
  "http_get demo_env (str ''http://q'') = None
   \<and> follow_links demo_env ([] @ str ''http://q'' # [str ''http://p'']) []
       = follow_links demo_env ([] @ [str ''http://p'']) []
   \<and> extract_links (extract_text_from_msg demo_env msg_dead) = [str ''http://q'']
   \<and> msg_matches demo_env msg_dead = found_direct demo_env msg_dead
   \<and> found_direct demo_env msg_dead = []
   \<and> fst (process demo_env 1 \<lparr>mailbox = [\<lparr>message = msg_dead, flags = {}\<rparr>], trace = []\<rparr>)
       = None
   \<and> trace (snd (process demo_env 1
                     \<lparr>mailbox = [\<lparr>message = msg_dead, flags = {}\<rparr>], trace = []\<rparr>))
       = [Fetch 1, Store 1 Deleted]"
proof -
  let ?w = "\<lparr>mailbox = [\<lparr>message = msg_dead, flags = {}\<rparr>], trace = []\<rparr>"
  note c8 = failed_links_skipped [of demo_env "str ''http://q''" "[]" "[str ''http://p'']" "[]"
      msg_dead ?w 1]
  have fail: "\<forall>u \<in> set (extract_links (extract_text_from_msg demo_env msg_dead)).
      http_get demo_env u = None"
    by (simp add: links_msg_dead get_q)
  have v: "valid_num (mailbox ?w) 1" "message (mailbox ?w ! (1 - 1)) = msg_dead"
    by (simp_all add: valid_num_def)
  from c8 get_q have 1: "follow_links demo_env ([] @ str ''http://q'' # [str ''http://p'']) []
       = follow_links demo_env ([] @ [str ''http://p'']) []"
    by blast
  from c8 fail have 2: "msg_matches demo_env msg_dead = found_direct demo_env msg_dead"
    by blast
  from c8 fail v found_msg_dead
  have 3: "fst (process demo_env 1 ?w) = None
      \<and> trace (snd (process demo_env 1 ?w)) = trace ?w @ [Fetch 1, Store 1 Deleted]"
    by blast
  from 1 2 3 show ?thesis by (simp add: get_q links_msg_dead found_msg_dead)
qed




end
